theory Spec2Isabelle
  imports Main "HOL-Library.Word" "HOL-Library.Signed_Division"
begin

section \<open>Go values shared by the model\<close>

text \<open>
  The package is built for linux with the gpu tag, where Go's \<open>int\<close> has 64 bits. Where the
  code does arithmetic on sizes (\<open>maxSlots\<close>, \<open>streamSizeContaining\<close>) an \<open>int\<close> is a
  \<open>64 word\<close> read as two's complement, so \<open>+\<close>, \<open>-\<close> and \<open>*\<close> wrap as in Go. Counters
  that are only compared and incremented below a bound of type \<open>int\<close> (loop indices, slice
  lengths, the bit widths 2048, 3200 and 4096) cannot wrap and are \<open>nat\<close> or \<open>int\<close>.
\<close>

type_synonym go_int = "64 word"
type_synonym byte = "8 word"

text \<open>A run-time panic of Go is a value; every function that can panic returns \<open>panic + 'a\<close>.\<close>

datatype panic =
    PrimeTooBig int
  | IndexOutOfRange nat nat
  | DivideByZero
  | MakeSliceCapOutOfRange

text \<open>Go's \<open>/\<close> on \<open>int\<close> truncates towards zero; the caller checks for a zero divisor.\<close>

definition go_quot :: "go_int \<Rightarrow> go_int \<Rightarrow> go_int" where
  "go_quot a b = word_of_int (sint a sdiv sint b)"

section \<open>Execution variants and the environment selector\<close>

text \<open>The three empty structs implementing \<open>gpumathsEnv\<close>.\<close>

datatype gpumathsEnv = gpumaths2048 | gpumaths3200 | gpumaths4096

fun getBitLen :: "gpumathsEnv \<Rightarrow> int" where
  "getBitLen gpumaths2048 = 2048"
| "getBitLen gpumaths3200 = 3200"
| "getBitLen gpumaths4096 = 4096"

fun getByteLen :: "gpumathsEnv \<Rightarrow> int" where
  "getByteLen gpumaths2048 = 2048 div 8"
| "getByteLen gpumaths3200 = 3200 div 8"
| "getByteLen gpumaths4096 = 4096 div 8"

text \<open>
  \<open>cyclic.Group\<close> belongs to the group-arithmetic library; \<open>chooseEnv\<close> only reads its prime.
  \<open>BitLen\<close> is \<open>big.Int.BitLen\<close>: the number of bits of the absolute value, 0 for 0.
\<close>

datatype Group = Group (GetP: int)

fun bit_count :: "nat \<Rightarrow> nat" where
  "bit_count n = (if n = 0 then 0 else Suc (bit_count (n div 2)))"

declare bit_count.simps [simp del]

definition BitLen :: "int \<Rightarrow> int" where
  "BitLen x = int (bit_count (nat \<bar>x\<bar>))"

definition chooseEnv :: "Group \<Rightarrow> panic + gpumathsEnv" where
  "chooseEnv g =
     (let primeLen = BitLen (GetP g);
          len2048 = getBitLen gpumaths2048;
          len3200 = getBitLen gpumaths3200;
          len4096 = getBitLen gpumaths4096
      in if primeLen \<le> len2048 then Inr gpumaths2048
         else if primeLen \<le> len3200 then Inr gpumaths3200
         else if primeLen \<le> len4096 then Inr gpumaths4096
         else Inl (PrimeTooBig (GetP g)))"

section \<open>Sizing calculator\<close>

text \<open>
  The sizes of one input slot, one output slot and the constants region come from the native
  library (\<open>C.getInputSize2048\<close> and its eight siblings, declared in
  \<open>powm_odd_export.h\<close>); they are parameters of the model. A kernel is a value of the C
  enumeration \<open>enum kernel\<close>. The functions return \<open>size_t\<close>, and \<open>int(...)\<close> keeps the
  64 bits.
\<close>

type_synonym enum_kernel = "32 word"

record native_sizes =
  getInputSize2048 :: "enum_kernel \<Rightarrow> go_int"
  getInputSize3200 :: "enum_kernel \<Rightarrow> go_int"
  getInputSize4096 :: "enum_kernel \<Rightarrow> go_int"
  getOutputSize2048 :: "enum_kernel \<Rightarrow> go_int"
  getOutputSize3200 :: "enum_kernel \<Rightarrow> go_int"
  getOutputSize4096 :: "enum_kernel \<Rightarrow> go_int"
  getConstantsSize2048 :: "enum_kernel \<Rightarrow> go_int"
  getConstantsSize3200 :: "enum_kernel \<Rightarrow> go_int"
  getConstantsSize4096 :: "enum_kernel \<Rightarrow> go_int"

fun getInputSize :: "native_sizes \<Rightarrow> gpumathsEnv \<Rightarrow> enum_kernel \<Rightarrow> go_int" where
  "getInputSize C gpumaths2048 kern = getInputSize2048 C kern"
| "getInputSize C gpumaths3200 kern = getInputSize3200 C kern"
| "getInputSize C gpumaths4096 kern = getInputSize4096 C kern"

fun getOutputSize :: "native_sizes \<Rightarrow> gpumathsEnv \<Rightarrow> enum_kernel \<Rightarrow> go_int" where
  "getOutputSize C gpumaths2048 kern = getOutputSize2048 C kern"
| "getOutputSize C gpumaths3200 kern = getOutputSize3200 C kern"
| "getOutputSize C gpumaths4096 kern = getOutputSize4096 C kern"

fun getConstantsSize :: "native_sizes \<Rightarrow> gpumathsEnv \<Rightarrow> enum_kernel \<Rightarrow> go_int" where
  "getConstantsSize C gpumaths2048 kern = getConstantsSize2048 C kern"
| "getConstantsSize C gpumaths3200 kern = getConstantsSize3200 C kern"
| "getConstantsSize C gpumaths4096 kern = getConstantsSize4096 C kern"

text \<open>
  \<open>maxSlots\<close> and \<open>streamSizeContaining\<close> have one body per variant in the source, the same
  text three times; the receiver \<open>g\<close> selects the native functions. A zero \<open>slotSize\<close> makes
  Go's division panic.
\<close>

definition maxSlots :: "native_sizes \<Rightarrow> gpumathsEnv \<Rightarrow> go_int \<Rightarrow> enum_kernel \<Rightarrow> panic + go_int" where
  "maxSlots C g memSize op =
     (let constantsSize = getConstantsSize C g op;
          slotSize = getInputSize C g op + getOutputSize C g op;
          memForSlots = memSize - constantsSize
      in if memForSlots <s 0 then Inr 0
         else if slotSize = 0 then Inl DivideByZero
         else Inr (go_quot memForSlots slotSize))"

definition streamSizeContaining :: "native_sizes \<Rightarrow> gpumathsEnv \<Rightarrow> go_int \<Rightarrow> go_int \<Rightarrow> go_int" where
  "streamSizeContaining C g numItems kern =
     getInputSize C g (ucast kern) * numItems +
     getOutputSize C g (ucast kern) * numItems +
     getConstantsSize C g (ucast kern)"

text \<open>
  A native library for evaluating the sizing functions: every kernel of every variant has
  1024 bytes of input, 512 bytes of output and 768 bytes of constants.
\<close>

definition sample_sizes :: native_sizes where
  "sample_sizes =
     \<lparr>getInputSize2048 = (\<lambda>_. 1024), getInputSize3200 = (\<lambda>_. 1024), getInputSize4096 = (\<lambda>_. 1024),
      getOutputSize2048 = (\<lambda>_. 512), getOutputSize3200 = (\<lambda>_. 512), getOutputSize4096 = (\<lambda>_. 512),
      getConstantsSize2048 = (\<lambda>_. 768), getConstantsSize3200 = (\<lambda>_. 768),
      getConstantsSize4096 = (\<lambda>_. 768)\<rparr>"

section \<open>Serialising an integer into a buffer\<close>

text \<open>
  A Go slice is the list of its bytes. An assignment \<open>dst[k] = v\<close> panics when \<open>k\<close> is not
  below \<open>len(dst)\<close>. \<open>putInt\<close> mutates \<open>dst\<close> in place; the model returns the new contents,
  or the panic. The two slices do not overlap, as the source's comment requires.
\<close>

definition store :: "byte list \<Rightarrow> nat \<Rightarrow> byte \<Rightarrow> panic + byte list" where
  "store dst k v =
     (if k < length dst then Inr (dst[k := v]) else Inl (IndexOutOfRange k (length dst)))"

text \<open>The first loop: \<open>for i := 0; i < n2; i++ { dst[n2-i-1] = src[i] }\<close>, with \<open>n2 = len(src)\<close>.\<close>

function putInt_copy :: "byte list \<Rightarrow> byte list \<Rightarrow> nat \<Rightarrow> panic + byte list" where
  "putInt_copy dst src i =
     (if i < length src then
        (case store dst (length src - i - 1) (src ! i) of
           Inl e \<Rightarrow> Inl e
         | Inr dst' \<Rightarrow> putInt_copy dst' src (Suc i))
      else Inr dst)"
  by pat_completeness auto
termination
  by (relation "measure (\<lambda>(dst, src, i). length src - i)") auto

declare putInt_copy.simps [simp del]

text \<open>The second loop: \<open>for i := n2; i < n; i++ { dst[i] = 0 }\<close>.\<close>

function putInt_zero :: "byte list \<Rightarrow> nat \<Rightarrow> int \<Rightarrow> panic + byte list" where
  "putInt_zero dst i n =
     (if int i < n then
        (case store dst i 0 of
           Inl e \<Rightarrow> Inl e
         | Inr dst' \<Rightarrow> putInt_zero dst' (Suc i) n)
      else Inr dst)"
  by pat_completeness auto
termination
  by (relation "measure (\<lambda>(dst, i, n). nat (n - int i))") auto

declare putInt_zero.simps [simp del]

definition putInt :: "byte list \<Rightarrow> byte list \<Rightarrow> int \<Rightarrow> panic + byte list" where
  "putInt dst src n =
     (let n2 = length src
      in case putInt_copy dst src 0 of
           Inl e \<Rightarrow> Inl e
         | Inr dst' \<Rightarrow> putInt_zero dst' n2 n)"

text \<open>
  The assignments of the two loops in the order of execution, as pairs of index and byte,
  and the effect of a sequence of assignments on a slice.
\<close>

definition putInt_writes :: "byte list \<Rightarrow> int \<Rightarrow> (nat \<times> byte) list" where
  "putInt_writes src n =
     map (\<lambda>i. (length src - i - 1, src ! i)) [0..<length src] @
     map (\<lambda>i. (i, 0)) [length src..<nat n]"

fun store_all :: "(nat \<times> byte) list \<Rightarrow> byte list \<Rightarrow> panic + byte list" where
  "store_all [] dst = Inr dst"
| "store_all ((k, v) # ws) dst =
     (case store dst k v of Inl e \<Rightarrow> Inl e | Inr dst' \<Rightarrow> store_all ws dst')"

section \<open>Creating and destroying streams\<close>

text \<open>
  A C pointer is \<open>None\<close> when nil. The native library keeps the device state; its two
  functions \<open>createStream\<close> and \<open>destroyStream\<close> are parameters of the model and act on a
  state \<open>'w\<close> of the library. A C string returned as an error is \<open>None\<close> when nil.
  \<open>goError\<close> copies the message into a Go error and frees the C string.
\<close>

type_synonym pointer = "nat option"

record streamCreateInfo =
  capacity :: "64 word"

record createStreamResult =
  result :: pointer
  error :: "string option"

record Stream =
  s :: pointer
  memSize :: go_int

record 'w native =
  createStream :: "streamCreateInfo \<Rightarrow> 'w \<Rightarrow> createStreamResult \<times> 'w"
  destroyStream :: "pointer \<Rightarrow> 'w \<Rightarrow> string option \<times> 'w"

definition goError :: "string option \<Rightarrow> string option" where
  "goError cString = (case cString of Some errorStringGo \<Rightarrow> Some errorStringGo | None \<Rightarrow> None)"

text \<open>
  The inner loop of \<open>createStreams\<close>: it calls \<open>destroyStream\<close> on every stream of the slice
  and drops what the call returns.
\<close>

fun destroyCreated :: "'w native \<Rightarrow> Stream list \<Rightarrow> 'w \<Rightarrow> 'w" where
  "destroyCreated C [] w = w"
| "destroyCreated C (st # rest) w = destroyCreated C rest (snd (destroyStream C (s st) w))"

text \<open>
  The outer loop of \<open>createStreams\<close>, from index \<open>i\<close> with the slice \<open>streams\<close> built so far.
  The result is the pair that Go returns, a nil slice being \<open>None\<close>, and the state of the
  library.
\<close>

function createStreams_loop ::
  "'w native \<Rightarrow> streamCreateInfo \<Rightarrow> go_int \<Rightarrow> int \<Rightarrow> nat \<Rightarrow> Stream list \<Rightarrow> 'w
     \<Rightarrow> (Stream list option \<times> string option) \<times> 'w" where
  "createStreams_loop C streamCreateInfo cap numStreams i streams w =
     (if int i < numStreams then
        (let (createStreamResult, w1) = createStream C streamCreateInfo w;
             streams1 = (if result createStreamResult \<noteq> None
                         then streams @ [\<lparr>s = result createStreamResult, memSize = cap\<rparr>]
                         else streams)
         in if error createStreamResult \<noteq> None
            then ((None, goError (error createStreamResult)), destroyCreated C streams1 w1)
            else createStreams_loop C streamCreateInfo cap numStreams (Suc i) streams1 w1)
      else ((Some streams, None), w))"
  by pat_completeness auto
termination
  by (relation "measure (\<lambda>(C, info, cap, numStreams, i, streams, w). nat (numStreams - int i))")
    auto

declare createStreams_loop.simps [simp del]

text \<open>
  \<open>make([]Stream, 0, numStreams)\<close> panics, before any native call, for a negative capacity
  and for one whose memory exceeds what the Go runtime can allocate. The largest capacity
  it accepts depends on the size of \<open>Stream\<close>, whose declaration is not among the sources; it
  is the parameter \<open>capLimit\<close>. Below the limit the allocation is taken to succeed.
\<close>

definition createStreams ::
  "'w native \<Rightarrow> int \<Rightarrow> int \<Rightarrow> go_int \<Rightarrow> 'w
     \<Rightarrow> panic + ((Stream list option \<times> string option) \<times> 'w)" where
  "createStreams C capLimit numStreams cap w =
     (let streamCreateInfo = \<lparr>capacity = cap\<rparr>
      in if numStreams < 0 \<or> capLimit < numStreams then Inl MakeSliceCapOutOfRange
         else Inr (createStreams_loop C streamCreateInfo cap numStreams 0 [] w))"

fun destroyStreams :: "'w native \<Rightarrow> Stream list \<Rightarrow> 'w \<Rightarrow> string option \<times> 'w" where
  "destroyStreams C [] w = (None, w)"
| "destroyStreams C (st # rest) w =
     (let (err, w1) = destroyStream C (s st) w
      in if err \<noteq> None then (goError err, w1) else destroyStreams C rest w1)"

text \<open>The contexts named by a slice of streams.\<close>

definition handles :: "Stream list \<Rightarrow> nat set" where
  "handles streams = {h. Some h \<in> s ` set streams}"

text \<open>
  The native calls, for stating what \<open>createStreams\<close> does. \<open>createCalls C info k w\<close> are the
  results of \<open>k\<close> successive calls of \<open>createStream\<close> from the state \<open>w\<close>, with the state they
  leave; \<open>streamsOf\<close> are the streams of the contexts among such results; \<open>undestroyed\<close> are
  the streams of a slice for which a call of \<open>destroyStream\<close>, made for each in turn,
  returns an error.
\<close>

fun createCalls ::
  "'w native \<Rightarrow> streamCreateInfo \<Rightarrow> nat \<Rightarrow> 'w \<Rightarrow> createStreamResult list \<times> 'w" where
  "createCalls C info 0 w = ([], w)"
| "createCalls C info (Suc k) w =
     (let (r, w1) = createStream C info w;
          (rs, w2) = createCalls C info k w1
      in (r # rs, w2))"

definition streamsOf :: "go_int \<Rightarrow> createStreamResult list \<Rightarrow> Stream list" where
  "streamsOf cap rs =
     map (\<lambda>r. \<lparr>s = result r, memSize = cap\<rparr>) (filter (\<lambda>r. result r \<noteq> None) rs)"

fun undestroyed :: "'w native \<Rightarrow> Stream list \<Rightarrow> 'w \<Rightarrow> Stream list" where
  "undestroyed C [] w = []"
| "undestroyed C (st # rest) w =
     (let (err, w1) = destroyStream C (s st) w
      in (if err \<noteq> None then [st] else []) @ undestroyed C rest w1)"

text \<open>
  What the model asks of a native library, for an observation \<open>allocated\<close> of the contexts
  that exist: \<open>createStream\<close> adds the context it returns and nothing else; a call of
  \<open>destroyStream\<close> that returns no error removes the context it is given; a call that
  returns an error may leave it, and adds none.
\<close>

definition native_contract :: "('w \<Rightarrow> nat set) \<Rightarrow> 'w native \<Rightarrow> bool" where
  "native_contract allocated C \<longleftrightarrow>
     (\<forall>info w. allocated (snd (createStream C info w)) =
                allocated w \<union> set_option (result (fst (createStream C info w)))) \<and>
     (\<forall>h w. fst (destroyStream C h w) = None \<longrightarrow>
              allocated (snd (destroyStream C h w)) = allocated w - set_option h) \<and>
     (\<forall>h w. allocated (snd (destroyStream C h w)) \<subseteq> allocated w)"

text \<open>
  A device for evaluating the model. It has room for \<open>free_slots\<close> more contexts and numbers
  them from \<open>next_handle\<close>. The library \<open>sim_native stuck\<close> drives it and fails to destroy
  the contexts listed in \<open>stuck\<close>.
\<close>

record device =
  next_handle :: nat
  live :: "nat list"
  free_slots :: nat

definition sim_createStream :: "streamCreateInfo \<Rightarrow> device \<Rightarrow> createStreamResult \<times> device" where
  "sim_createStream info d =
     (if free_slots d = 0 then (\<lparr>result = None, error = Some ''out of memory''\<rparr>, d)
      else (\<lparr>result = Some (next_handle d), error = None\<rparr>,
            d\<lparr>next_handle := Suc (next_handle d), live := live d @ [next_handle d],
              free_slots := free_slots d - 1\<rparr>))"

definition sim_destroyStream :: "nat list \<Rightarrow> pointer \<Rightarrow> device \<Rightarrow> string option \<times> device" where
  "sim_destroyStream stuck h d =
     (case h of
        None \<Rightarrow> (Some ''nil stream'', d)
      | Some x \<Rightarrow>
          if x \<in> set stuck then (Some ''destroy failed'', d)
          else (None, d\<lparr>live := removeAll x (live d), free_slots := Suc (free_slots d)\<rparr>))"

definition sim_native :: "nat list \<Rightarrow> device native" where
  "sim_native stuck = \<lparr>createStream = sim_createStream, destroyStream = sim_destroyStream stuck\<rparr>"

section \<open>The build without the accelerator\<close>

text \<open>
  The file built when the target is not linux with the gpu tag. It declares the same names
  as the accelerated build; here they carry the suffix \<open>_stub\<close>. \<open>Stream\<close> and \<open>StreamPool\<close>
  are empty structs, and a method's receiver is a pointer.
\<close>

datatype Stream_stub = Stream_stub
datatype StreamPool_stub = StreamPool_stub

definition unsupported :: string where
  "unsupported = ''gpumaths stubbed build doesn'' @ [CHR 0x27] @ ''t support CUDA stream pool''"

definition GetMaxSlotsExp_stub :: "Stream_stub option \<Rightarrow> go_int" where
  "GetMaxSlotsExp_stub st = 0"

definition GetMaxSlotsElGamal_stub :: "Stream_stub option \<Rightarrow> go_int" where
  "GetMaxSlotsElGamal_stub st = 0"

definition NewStreamPool_stub :: "go_int \<Rightarrow> go_int \<Rightarrow> StreamPool_stub option \<times> string option" where
  "NewStreamPool_stub numStreams memSize' = (None, Some unsupported)"

definition TakeStream_stub :: "StreamPool_stub option \<Rightarrow> Stream_stub" where
  "TakeStream_stub sm = Stream_stub"

definition ReturnStream_stub :: "StreamPool_stub option \<Rightarrow> Stream_stub \<Rightarrow> unit" where
  "ReturnStream_stub sm st = ()"

definition Destroy_stub :: "StreamPool_stub option \<Rightarrow> string option" where
  "Destroy_stub sm = Some unsupported"

definition MaxSlots_stub :: "go_int \<Rightarrow> go_int \<Rightarrow> go_int" where
  "MaxSlots_stub memSize' op = 0"

definition streamSizeContaining_stub :: "go_int \<Rightarrow> go_int \<Rightarrow> go_int" where
  "streamSizeContaining_stub numItems kern = 0"

text \<open>
  The pool and stream operations of the build, and the error each hands to its caller.
  \<open>TakeStream\<close> and \<open>ReturnStream\<close> have no error among their results.
\<close>

datatype stub_call =
    CallNewStreamPool go_int go_int
  | CallTakeStream "StreamPool_stub option"
  | CallReturnStream "StreamPool_stub option" Stream_stub
  | CallDestroy "StreamPool_stub option"

fun reported_error :: "stub_call \<Rightarrow> string option" where
  "reported_error (CallNewStreamPool numStreams memSize') = snd (NewStreamPool_stub numStreams memSize')"
| "reported_error (CallTakeStream sm) = (case TakeStream_stub sm of Stream_stub \<Rightarrow> None)"
| "reported_error (CallReturnStream sm st) = (case ReturnStream_stub sm st of () \<Rightarrow> None)"
| "reported_error (CallDestroy sm) = Destroy_stub sm"

section \<open>The stream pool\<close>







section \<open>Variant widths\<close>

text \<open>
  C9. For each of the three variants the byte length is the bit length divided by 8, and
  the division is exact. Both are functions of the variant alone: the receivers are empty
  structs, so there is no state from which a later call could read another value.
\<close>

theorem byteLen_is_bitLen_div_8:
  "getByteLen e = getBitLen e div 8 \<and> getBitLen e mod 8 = 0 \<and> getByteLen e * 8 = getBitLen e
   \<and> getBitLen e \<in> {2048, 3200, 4096}"
  by (cases e) simp_all

section \<open>Arithmetic of Go's int\<close>

lemma sint_mult_exact:
  fixes a b :: go_int
  assumes "- (2 ^ 63) \<le> sint a * sint b" "sint a * sint b < 2 ^ 63"
  shows "sint (a * b) = sint a * sint b"
  using assms by (simp add: sint_word_ariths signed_take_bit_int_eq_self)

lemma sint_diff_exact:
  fixes a b :: go_int
  assumes "- (2 ^ 63) \<le> sint a - sint b" "sint a - sint b < 2 ^ 63"
  shows "sint (a - b) = sint a - sint b"
  using assms by (simp add: sint_word_ariths signed_take_bit_int_eq_self)

lemma sdiv_nonneg_pos: "0 \<le> a \<Longrightarrow> 0 < b \<Longrightarrow> a sdiv b = a div (b::int)"
  by (simp add: signed_divide_int_def sgn_if)

lemma go_quot_sint:
  assumes "0 \<le> sint a" "0 < sint b"
  shows "sint (go_quot a b) = sint a div sint b"
proof -
  have le: "sint a div sint b \<le> sint a"
    using assms by (metis div_0 int_div_le_self linorder_not_less order_antisym_conv)
  have "sint a < 2 ^ 63" using sint_less[of a] by simp
  with le have up: "sint a div sint b < 2 ^ 63" by linarith
  have "0 \<le> sint a div sint b" using assms by (simp add: pos_imp_zdiv_nonneg_iff)
  then have lo: "- (2 ^ 63) \<le> sint a div sint b" by (rule order_trans[rotated]) simp
  show ?thesis
    using lo up assms
    by (simp add: go_quot_def sdiv_nonneg_pos sint_sbintrunc' signed_take_bit_int_eq_self)
qed

section \<open>Sizing round trip\<close>

lemma slot_memory:
  "streamSizeContaining C g n kern - getConstantsSize C g (ucast kern)
     = (getInputSize C g (ucast kern) + getOutputSize C g (ucast kern)) * n"
  by (simp add: streamSizeContaining_def distrib_right)

text \<open>
  C1, as stated, fails where the 64-bit product wraps: with a slot of 1536 bytes and
  \<open>2 ^ 62\<close> items the slot memory is a multiple of \<open>2 ^ 64\<close>, \<open>streamSizeContaining\<close> returns
  the constants size alone, and \<open>maxSlots\<close> of it is 0.
\<close>

theorem maxSlots_streamSizeContaining_wraps:
  "0 <s getInputSize sample_sizes gpumaths2048 (ucast (0 :: go_int))
          + getOutputSize sample_sizes gpumaths2048 (ucast (0 :: go_int))
   \<and> (0 :: go_int) \<le>s 2 ^ 62
   \<and> streamSizeContaining sample_sizes gpumaths2048 (2 ^ 62) 0 = 768
   \<and> maxSlots sample_sizes gpumaths2048
        (streamSizeContaining sample_sizes gpumaths2048 (2 ^ 62) 0) (ucast (0 :: go_int)) = Inr 0
   \<and> maxSlots sample_sizes gpumaths2048
        (streamSizeContaining sample_sizes gpumaths2048 (2 ^ 62) 0) (ucast (0 :: go_int))
       \<noteq> Inr (2 ^ 62)"
  by (simp add: maxSlots_def streamSizeContaining_def sample_sizes_def word_sless_alt
      word_sle_eq go_quot_def)

text \<open>
  C1, amended. For every variant, every kernel whose slot size (input size plus output
  size, as Go computes it) is positive, and every item count \<open>n \<ge> 0\<close> whose slot memory
  \<open>slotSize * n\<close> is below \<open>2 ^ 63\<close>, \<open>maxSlots\<close> of \<open>streamSizeContaining n\<close> is exactly \<open>n\<close>.
  The constants size is unconstrained: it is added and subtracted again.
\<close>

theorem maxSlots_streamSizeContaining:
  assumes pos: "0 <s getInputSize C g (ucast kern) + getOutputSize C g (ucast kern)"
    and n0: "0 \<le>s n"
    and fits: "sint (getInputSize C g (ucast kern) + getOutputSize C g (ucast kern)) * sint n
                 < 2 ^ 63"
  shows "maxSlots C g (streamSizeContaining C g n kern) (ucast kern) = Inr n"
proof -
  let ?slot = "getInputSize C g (ucast kern) + getOutputSize C g (ucast kern)"
  have sp: "0 < sint ?slot" using pos by (simp add: word_sless_alt)
  have np: "0 \<le> sint n" using n0 by (simp add: word_sle_eq)
  have prod0: "0 \<le> sint ?slot * sint n" using sp np by simp
  have sm: "sint (?slot * n) = sint ?slot * sint n"
    using prod0 fits by (intro sint_mult_exact) simp_all
  have nonneg: "\<not> (?slot * n <s 0)" using prod0 sm by (simp add: word_sless_alt)
  have nz: "?slot \<noteq> 0" using sp by auto
  have "sint (go_quot (?slot * n) ?slot) = sint n"
    using sp prod0 sm by (simp add: go_quot_sint)
  then have q: "go_quot (?slot * n) ?slot = n" by (simp add: signed_word_eqI)
  show ?thesis
    using nonneg nz q by (simp add: maxSlots_def Let_def slot_memory)
qed

theorem maxSlots_streamSizeContaining_witness:
  "0 <s getInputSize sample_sizes gpumaths4096 (ucast (0 :: go_int))
          + getOutputSize sample_sizes gpumaths4096 (ucast (0 :: go_int))
   \<and> (0 :: go_int) \<le>s 32768
   \<and> sint (getInputSize sample_sizes gpumaths4096 (ucast (0 :: go_int))
            + getOutputSize sample_sizes gpumaths4096 (ucast (0 :: go_int))) * sint (32768 :: go_int)
        < 2 ^ 63
   \<and> streamSizeContaining sample_sizes gpumaths4096 32768 0 = 50332416
   \<and> maxSlots sample_sizes gpumaths4096 50332416 (ucast (0 :: go_int)) = Inr 32768"
proof -
  have pos: "0 <s getInputSize sample_sizes gpumaths4096 (ucast (0 :: go_int))
                   + getOutputSize sample_sizes gpumaths4096 (ucast (0 :: go_int))"
    by (simp add: sample_sizes_def word_sless_alt)
  have n0: "(0 :: go_int) \<le>s 32768" by (simp add: word_sle_eq)
  have fits: "sint (getInputSize sample_sizes gpumaths4096 (ucast (0 :: go_int))
                + getOutputSize sample_sizes gpumaths4096 (ucast (0 :: go_int)))
              * sint (32768 :: go_int) < 2 ^ 63"
    by (simp add: sample_sizes_def)
  have size: "streamSizeContaining sample_sizes gpumaths4096 32768 0 = 50332416"
    by (simp add: streamSizeContaining_def sample_sizes_def)
  show ?thesis
    using pos n0 fits size maxSlots_streamSizeContaining [OF pos n0 fits] by simp
qed

section \<open>The maxSlots formula\<close>

text \<open>
  C6, as stated, fails for a budget so far below zero that \<open>memSize - constantsSize\<close> wraps:
  the budget \<open>- 2 ^ 63\<close> is smaller than the 768 bytes of constants, and \<open>maxSlots\<close> returns
  6004799503160660 slots instead of 0.
\<close>

theorem maxSlots_budget_wraps:
  "0 <s getInputSize sample_sizes gpumaths2048 0 + getOutputSize sample_sizes gpumaths2048 0
   \<and> (- (2 ^ 63) :: go_int) <s getConstantsSize sample_sizes gpumaths2048 0
   \<and> maxSlots sample_sizes gpumaths2048 (- (2 ^ 63)) 0 = Inr 6004799503160660
   \<and> maxSlots sample_sizes gpumaths2048 (- (2 ^ 63)) 0 \<noteq> Inr 0"
  by (simp add: maxSlots_def sample_sizes_def word_sless_alt go_quot_def)

text \<open>
  C6, amended. For every variant, every kernel with positive slot size and every budget
  \<open>B\<close> for which \<open>B - constantsSize\<close> does not leave the 64-bit range (every \<open>B \<ge> 0\<close> when the
  constants size is not negative), \<open>maxSlots\<close> returns, without panic,
  \<open>max 0 \<lfloor>(B - constantsSize) / slotSize\<rfloor>\<close>; for \<open>B\<close> below the constants size that is 0.
\<close>

theorem maxSlots_formula:
  assumes pos: "0 <s getInputSize C g op + getOutputSize C g op"
    and lo: "- (2 ^ 63) \<le> sint B - sint (getConstantsSize C g op)"
    and hi: "sint B - sint (getConstantsSize C g op) < 2 ^ 63"
  shows "\<exists>r. maxSlots C g B op = Inr r \<and>
           sint r = max 0 ((sint B - sint (getConstantsSize C g op))
                            div sint (getInputSize C g op + getOutputSize C g op)) \<and>
           (sint B < sint (getConstantsSize C g op) \<longrightarrow> r = 0)"
proof -
  let ?slot = "getInputSize C g op + getOutputSize C g op"
  let ?c = "getConstantsSize C g op"
  have sp: "0 < sint ?slot" using pos by (simp add: word_sless_alt)
  have nz: "?slot \<noteq> 0" using sp by auto
  have sd: "sint (B - ?c) = sint B - sint ?c"
    using lo hi by (rule sint_diff_exact)
  show ?thesis
  proof (cases "sint B < sint ?c")
    case True
    then have neg: "B - ?c <s 0" using sd by (simp add: word_sless_alt)
    have "(sint B - sint ?c) div sint ?slot < 0"
      using True sp by (simp add: div_neg_pos_less0)
    then show ?thesis using neg True by (simp add: maxSlots_def Let_def)
  next
    case False
    then have nn: "0 \<le> sint (B - ?c)" using sd by simp
    then have notneg: "\<not> (B - ?c <s 0)" by (simp add: word_sless_alt)
    have "0 \<le> (sint B - sint ?c) div sint ?slot"
      using False sp by (simp add: pos_imp_zdiv_nonneg_iff)
    then show ?thesis
      using notneg nz False go_quot_sint[OF nn sp] sd
      by (simp add: maxSlots_def Let_def)
  qed
qed

theorem maxSlots_formula_witness:
  "0 <s getInputSize sample_sizes gpumaths3200 1 + getOutputSize sample_sizes gpumaths3200 1
   \<and> - (2 ^ 63) \<le> sint (65536 :: go_int) - sint (getConstantsSize sample_sizes gpumaths3200 1)
   \<and> sint (65536 :: go_int) - sint (getConstantsSize sample_sizes gpumaths3200 1) < 2 ^ 63
   \<and> maxSlots sample_sizes gpumaths3200 65536 1 = Inr 42
   \<and> - (2 ^ 63) \<le> sint (100 :: go_int) - sint (getConstantsSize sample_sizes gpumaths3200 1)
   \<and> sint (100 :: go_int) - sint (getConstantsSize sample_sizes gpumaths3200 1) < 2 ^ 63
   \<and> sint (100 :: go_int) < sint (getConstantsSize sample_sizes gpumaths3200 1)
   \<and> maxSlots sample_sizes gpumaths3200 100 1 = Inr 0"
proof -
  have pos: "0 <s getInputSize sample_sizes gpumaths3200 1
                   + getOutputSize sample_sizes gpumaths3200 1"
    by (simp add: sample_sizes_def word_sless_alt)
  have lo1: "- (2 ^ 63) \<le> sint (65536 :: go_int)
               - sint (getConstantsSize sample_sizes gpumaths3200 1)"
    and hi1: "sint (65536 :: go_int) - sint (getConstantsSize sample_sizes gpumaths3200 1)
               < 2 ^ 63"
    and lo2: "- (2 ^ 63) \<le> sint (100 :: go_int)
               - sint (getConstantsSize sample_sizes gpumaths3200 1)"
    and hi2: "sint (100 :: go_int) - sint (getConstantsSize sample_sizes gpumaths3200 1)
               < 2 ^ 63"
    and below: "sint (100 :: go_int) < sint (getConstantsSize sample_sizes gpumaths3200 1)"
    by (simp_all add: sample_sizes_def)
  obtain r1 where r1: "maxSlots sample_sizes gpumaths3200 65536 1 = Inr r1"
    and v1: "sint r1 = max 0 ((sint (65536 :: go_int)
                - sint (getConstantsSize sample_sizes gpumaths3200 1))
              div sint (getInputSize sample_sizes gpumaths3200 1
                        + getOutputSize sample_sizes gpumaths3200 1))"
    using maxSlots_formula [OF pos lo1 hi1] by blast
  from v1 have "sint r1 = sint (42 :: go_int)" by (simp add: sample_sizes_def)
  then have e1: "r1 = 42" by (rule signed_word_eqI)
  obtain r2 where r2: "maxSlots sample_sizes gpumaths3200 100 1 = Inr r2"
    and z2: "sint (100 :: go_int) < sint (getConstantsSize sample_sizes gpumaths3200 1)
               \<longrightarrow> r2 = 0"
    using maxSlots_formula [OF pos lo2 hi2] by blast
  from z2 below have e2: "r2 = 0" by blast
  show ?thesis
    using pos lo1 hi1 lo2 hi2 below r1 e1 r2 e2 by simp
qed

section \<open>Environment selection\<close>

lemma bit_count_le: "bit_count n \<le> k \<longleftrightarrow> n < 2 ^ k"
proof (induction n arbitrary: k rule: bit_count.induct)
  case (1 n)
  show ?case
  proof (cases "n = 0")
    case True
    then show ?thesis by (simp add: bit_count.simps)
  next
    case False
    show ?thesis
    proof (cases k)
      case 0
      with False show ?thesis by (simp add: bit_count.simps)
    next
      case (Suc j)
      have "n div 2 < 2 ^ j \<longleftrightarrow> n < 2 ^ Suc j" by auto
      with False Suc 1[OF False, of j] show ?thesis by (simp add: bit_count.simps)
    qed
  qed
qed

lemma BitLen_le: "BitLen x \<le> int k \<longleftrightarrow> \<bar>x\<bar> < 2 ^ k"
proof -
  have "(nat \<bar>x\<bar> < 2 ^ k) = (\<bar>x\<bar> < 2 ^ k)"
    by (metis nat_less_iff abs_ge_zero of_nat_numeral of_nat_power)
  then show ?thesis by (simp add: BitLen_def bit_count_le)
qed

text \<open>
  C5. When the prime has at most 4096 bits, \<open>chooseEnv\<close> returns a variant that is wide
  enough and no wider than any other variant that is wide enough; when the prime has more
  than 4096 bits it panics, with the prime in the message, and returns no variant. The
  primes of the instance below are the Mersenne primes with exponents 2203 and 4423.
\<close>

theorem chooseEnv_smallest_fit:
  "(BitLen (GetP g) \<le> 4096 \<longrightarrow>
      (\<exists>e. chooseEnv g = Inr e \<and> BitLen (GetP g) \<le> getBitLen e \<and>
           (\<forall>e'. BitLen (GetP g) \<le> getBitLen e' \<longrightarrow> getBitLen e \<le> getBitLen e')))
   \<and> (4096 < BitLen (GetP g) \<longrightarrow> chooseEnv g = Inl (PrimeTooBig (GetP g)))"
proof (intro conjI impI)
  assume fit: "BitLen (GetP g) \<le> 4096"
  have least: "\<And>e e'. chooseEnv g = Inr e \<Longrightarrow> BitLen (GetP g) \<le> getBitLen e'
               \<Longrightarrow> getBitLen e \<le> getBitLen e'"
    subgoal for e e'
      by (cases e') (auto simp: chooseEnv_def Let_def split: if_splits)
    done
  from fit have "\<exists>e. chooseEnv g = Inr e \<and> BitLen (GetP g) \<le> getBitLen e"
    by (simp add: chooseEnv_def Let_def)
  then obtain e where e: "chooseEnv g = Inr e" and ge: "BitLen (GetP g) \<le> getBitLen e"
    by blast
  with least show "\<exists>e. chooseEnv g = Inr e \<and> BitLen (GetP g) \<le> getBitLen e \<and>
           (\<forall>e'. BitLen (GetP g) \<le> getBitLen e' \<longrightarrow> getBitLen e \<le> getBitLen e')"
    by blast
next
  assume "4096 < BitLen (GetP g)"
  then show "chooseEnv g = Inl (PrimeTooBig (GetP g))"
    by (simp add: chooseEnv_def Let_def)
qed

theorem chooseEnv_smallest_fit_witness:
  "BitLen (GetP (Group (2 ^ 2203 - 1))) = 2203
   \<and> chooseEnv (Group (2 ^ 2203 - 1)) = Inr gpumaths3200
   \<and> 4096 < BitLen (GetP (Group (2 ^ 4423 - 1)))
   \<and> chooseEnv (Group (2 ^ 4423 - 1)) = Inl (PrimeTooBig (2 ^ 4423 - 1))"
proof -
  have a: "BitLen (2 ^ 2203 - 1) \<le> 2203" using BitLen_le [of "2 ^ 2203 - 1" 2203] by simp
  have b: "\<not> BitLen (2 ^ 2203 - 1) \<le> 2202" using BitLen_le [of "2 ^ 2203 - 1" 2202] by simp
  have len: "BitLen (2 ^ 2203 - 1) = 2203" using a b by linarith
  have big: "4096 < BitLen (2 ^ 4423 - 1)" using BitLen_le [of "2 ^ 4423 - 1" 4096] by simp
  from chooseEnv_smallest_fit [of "Group (2 ^ 2203 - 1)"] len
  obtain e where e: "chooseEnv (Group (2 ^ 2203 - 1)) = Inr e" and fit: "2203 \<le> getBitLen e"
    and least: "\<forall>e'. 2203 \<le> getBitLen e' \<longrightarrow> getBitLen e \<le> getBitLen e'"
    by auto
  from least have "getBitLen e \<le> getBitLen gpumaths3200"
    by (drule_tac x = gpumaths3200 in spec) simp
  with fit have "e = gpumaths3200" by (cases e) simp_all
  with e len big chooseEnv_smallest_fit [of "Group (2 ^ 4423 - 1)"] show ?thesis by simp
qed

section \<open>Serialisation by putInt\<close>

lemma store_all_append:
  "store_all (ws @ vs) dst = (case store_all ws dst of Inl e \<Rightarrow> Inl e | Inr d \<Rightarrow> store_all vs d)"
  by (induction ws arbitrary: dst) (auto split: sum.splits)

lemma putInt_copy_writes:
  "putInt_copy dst src i = store_all (map (\<lambda>i. (length src - i - 1, src ! i)) [i..<length src]) dst"
proof (induction dst src i rule: putInt_copy.induct)
  case (1 dst src i)
  show ?case
  proof (cases "i < length src")
    case True
    then have u: "[i..<length src] = i # [Suc i..<length src]" by (simp add: upt_conv_Cons)
    show ?thesis
      using True 1 by (subst putInt_copy.simps) (auto simp: u split: sum.splits)
  next
    case False
    then show ?thesis by (subst putInt_copy.simps) simp
  qed
qed

lemma putInt_zero_writes:
  "putInt_zero dst i n = store_all (map (\<lambda>i. (i, 0)) [i..<nat n]) dst"
proof (induction dst i n rule: putInt_zero.induct)
  case (1 dst i n)
  show ?case
  proof (cases "int i < n")
    case True
    then have "i < nat n" by simp
    then have u: "[i..<nat n] = i # [Suc i..<nat n]" by (simp add: upt_conv_Cons)
    show ?thesis
      using True 1 by (subst putInt_zero.simps) (auto simp: u split: sum.splits)
  next
    case False
    then have "[i..<nat n] = []" by simp
    with False show ?thesis by (subst putInt_zero.simps) simp
  qed
qed

lemma putInt_as_writes: "putInt dst src n = store_all (putInt_writes src n) dst"
  by (simp add: putInt_def putInt_writes_def store_all_append putInt_copy_writes
      putInt_zero_writes split: sum.splits)

lemma putInt_copy_closed:
  "i \<le> length src \<Longrightarrow>
   putInt_copy dst src i =
     (if length src - i \<le> length dst
      then Inr (rev (drop i src) @ drop (length src - i) dst)
      else Inl (IndexOutOfRange (length src - i - 1) (length dst)))"
proof (induction dst src i rule: putInt_copy.induct)
  case (1 dst src i)
  show ?case
  proof (cases "i < length src")
    case False
    with 1 show ?thesis by (subst putInt_copy.simps) simp
  next
    case True
    show ?thesis
    proof (cases "length src - i \<le> length dst")
      case False
      with True have "\<not> length src - i - 1 < length dst" by linarith
      with True False show ?thesis by (subst putInt_copy.simps) (simp add: store_def)
    next
      case inb: True
      let ?m = "length src - Suc i"
      have st0: "store dst (length src - i - 1) (src ! i) = Inr (dst[?m := src ! i])"
        using True inb by (simp add: store_def)
      then have st: "store dst ?m (src ! i) = Inr (dst[?m := src ! i])" by simp
      have IH: "putInt_copy (dst[?m := src ! i]) src (Suc i) =
                  Inr (rev (drop (Suc i) src) @ drop ?m (dst[?m := src ! i]))"
        using 1(1)[OF True st0] True inb by simp
      have d1: "drop ?m (dst[?m := src ! i]) = src ! i # drop (Suc ?m) dst"
        using True inb by (simp add: drop_update_cancel Cons_nth_drop_Suc[symmetric] upd_conv_take_nth_drop)
      have d2: "rev (drop i src) = rev (drop (Suc i) src) @ [src ! i]"
        using True by (simp add: Cons_nth_drop_Suc[symmetric])
      have sm: "Suc ?m = length src - i" using True by simp
      show ?thesis
        using True inb by (subst putInt_copy.simps) (simp add: st IH d1 d2 sm)
    qed
  qed
qed

lemma putInt_zero_closed:
  "i \<le> length dst \<Longrightarrow>
   putInt_zero dst i n =
     (if n \<le> int (length dst)
      then Inr (take i dst @ replicate (nat n - i) 0 @ drop (max i (nat n)) dst)
      else Inl (IndexOutOfRange (length dst) (length dst)))"
proof (induction dst i n rule: putInt_zero.induct)
  case (1 dst i n)
  show ?case
  proof (cases "int i < n")
    case False
    then have "max i (nat n) = i" by simp
    with False 1(2) show ?thesis by (subst putInt_zero.simps) simp
  next
    case True
    show ?thesis
    proof (cases "i < length dst")
      case False
      with True 1(2) show ?thesis by (subst putInt_zero.simps) (simp add: store_def)
    next
      case inb: True
      have st: "store dst i 0 = Inr (dst[i := 0])" using inb by (simp add: store_def)
      have IH: "putInt_zero (dst[i := 0]) (Suc i) n =
         (if n \<le> int (length dst)
          then Inr (take (Suc i) (dst[i := 0]) @ replicate (nat n - Suc i) 0
                     @ drop (max (Suc i) (nat n)) (dst[i := 0]))
          else Inl (IndexOutOfRange (length dst) (length dst)))"
        using 1(1)[OF True st] inb by simp
      have t: "take (Suc i) (dst[i := 0]) = take i dst @ [0]"
        using inb by (simp add: take_Suc_conv_app_nth)
      have mx: "max (Suc i) (nat n) = max i (nat n)" using True by simp
      have dr: "drop (max i (nat n)) (dst[i := 0]) = drop (max i (nat n)) dst"
        using True by simp
      have rp: "replicate (nat n - i) (0::byte) = 0 # replicate (nat n - Suc i) 0"
        using True by (metis Suc_diff_Suc nat_less_iff replicate_Suc zless_nat_conj zless_nat_eq_int_zless of_nat_0_le_iff)
      show ?thesis
        using True by (subst putInt_zero.simps) (simp add: st IH t mx dr rp)
    qed
  qed
qed

lemma putInt_closed:
  "putInt dst src n =
     (if length dst < length src then Inl (IndexOutOfRange (length src - 1) (length dst))
      else if int (length dst) < n then Inl (IndexOutOfRange (length dst) (length dst))
      else Inr (rev src @ replicate (nat n - length src) 0 @ drop (max (length src) (nat n)) dst))"
  by (simp add: putInt_def putInt_copy_closed putInt_zero_closed)


text \<open>
  C2, as stated, fails: the two-byte value \<open>[1, 2]\<close> in a field of width 4 is serialised as
  \<open>[2, 1, 0, 0]\<close>, not as the left-padded \<open>[0, 0, 1, 2]\<close>.
\<close>

theorem putInt_left_pad_refuted:
  "length [1, 2 :: byte] < 4 \<and> 4 \<le> length [9, 9, 9, 9 :: byte]
   \<and> putInt [9, 9, 9, 9] [1, 2] 4 = Inr [2, 1, 0, 0]
   \<and> putInt [9, 9, 9, 9] [1, 2] 4 \<noteq> Inr (replicate (4 - length [1, 2 :: byte]) 0 @ [1, 2])"
  by (simp add: putInt_closed numeral_eq_Suc)

text \<open>
  C2, amended. For every value shorter than the field width \<open>n\<close>, written into a destination
  of at least \<open>n\<close> bytes, \<open>putInt\<close> fills the field with the value's bytes in reversed order
  followed by zero bytes: the field is the byte reversal of the value left-padded with
  zeros to width \<open>n\<close>, that is the value with the least significant byte first and padded
  on the right. The bytes of the destination after the field are unchanged.
\<close>

theorem putInt_short_value:
  assumes short: "int (length src) < n" and room: "n \<le> int (length dst)"
  shows "\<exists>d. putInt dst src n = Inr d
           \<and> take (nat n) d = rev src @ replicate (nat n - length src) 0
           \<and> take (nat n) d = rev (replicate (nat n - length src) 0 @ src)
           \<and> drop (nat n) d = drop (nat n) dst
           \<and> length d = length dst"
proof -
  have m: "max (length src) (nat n) = nat n" using short by simp
  have len: "length src + (nat n - length src) = nat n" using short by simp
  have fit: "nat n \<le> length dst" using room by simp
  have p: "putInt dst src n =
             Inr (rev src @ replicate (nat n - length src) 0 @ drop (nat n) dst)"
    using short room by (simp add: putInt_closed m)
  have l: "length (rev src @ replicate (nat n - length src) (0::byte)) = nat n"
    using len by simp
  show ?thesis
    using p l fit len by simp
qed

theorem putInt_short_value_witness:
  "int (length [1, 2 :: byte]) < 4 \<and> (4 :: int) \<le> int (length [9, 9, 9, 9, 7 :: byte])
   \<and> putInt [9, 9, 9, 9, 7] [1, 2] 4 = Inr [2, 1, 0, 0, 7]"
proof -
  have short: "int (length [1, 2 :: byte]) < 4" by simp
  have room: "(4 :: int) \<le> int (length [9, 9, 9, 9, 7 :: byte])" by simp
  from putInt_short_value [OF short room]
  obtain d where d: "putInt [9, 9, 9, 9, 7] [1, 2] 4 = Inr d"
    and front: "take (nat 4) d = rev [1, 2] @ replicate (nat 4 - length [1, 2 :: byte]) 0"
    and rest: "drop (nat 4) d = drop (nat 4) [9, 9, 9, 9, 7]"
    by blast
  have "d = take (nat 4) d @ drop (nat 4) d" by simp
  also have "\<dots> = [2, 1, 0, 0, 7]" unfolding front rest by (simp add: numeral_eq_Suc)
  finally show ?thesis using d short room by simp
qed

section \<open>Bounds of putInt\<close>

lemma putInt_writes_indices:
  "fst ` set (putInt_writes src n) = {k. int k < max (int (length src)) n}"
proof -
  have a: "(\<lambda>i. length src - i - 1) ` {0..<length src} = {0..<length src}"
  proof (intro equalityI subsetI)
    fix k assume "k \<in> (\<lambda>i. length src - i - 1) ` {0..<length src}"
    then show "k \<in> {0..<length src}" by auto
  next
    fix k assume k: "k \<in> {0..<length src}"
    then have "k = length src - (length src - k - 1) - 1" "length src - k - 1 \<in> {0..<length src}"
      by auto
    then show "k \<in> (\<lambda>i. length src - i - 1) ` {0..<length src}" by (rule image_eqI)
  qed
  have "fst ` set (putInt_writes src n) =
          (\<lambda>i. length src - i - 1) ` {0..<length src} \<union> {length src..<nat n}"
    by (simp add: putInt_writes_def image_Un image_image)
  also have "\<dots> = {0..<length src} \<union> {length src..<nat n}" by (simp only: a)
  also have "\<dots> = {k. int k < max (int (length src)) n}" by auto
  finally show ?thesis .
qed

text \<open>
  C10. The assignments of \<open>putInt\<close> are those of \<open>putInt_writes\<close>; their indices are exactly
  the indices below \<open>max (len src) n\<close>. \<open>putInt\<close> returns without panic if and only if every
  one of them is below \<open>len dst\<close>, that is if and only if \<open>max (len src) n \<le> len dst\<close>; it
  then leaves the reversed bytes of \<open>src\<close> in the first \<open>len src\<close> positions, zeros from there
  up to \<open>n\<close>, and the rest of \<open>dst\<close> as it was. With \<open>n \<le> len dst < len src\<close> it panics.
\<close>

theorem putInt_in_bounds_iff:
  "putInt dst src n = store_all (putInt_writes src n) dst
   \<and> fst ` set (putInt_writes src n) = {k. int k < max (int (length src)) n}
   \<and> ((\<exists>d. putInt dst src n = Inr d) \<longleftrightarrow>
        (\<forall>k \<in> fst ` set (putInt_writes src n). k < length dst))
   \<and> ((\<exists>d. putInt dst src n = Inr d) \<longleftrightarrow> max (int (length src)) n \<le> int (length dst))
   \<and> (max (int (length src)) n \<le> int (length dst) \<longrightarrow>
        putInt dst src n =
          Inr (rev src @ replicate (nat n - length src) 0 @ drop (max (length src) (nat n)) dst))
   \<and> (n \<le> int (length dst) \<and> length dst < length src \<longrightarrow>
        putInt dst src n = Inl (IndexOutOfRange (length src - 1) (length dst)))"
proof -
  have ok: "(\<exists>d. putInt dst src n = Inr d) \<longleftrightarrow> max (int (length src)) n \<le> int (length dst)"
  proof (cases "length dst < length src")
    case True
    then show ?thesis by (simp add: putInt_closed)
  next
    case False
    then have "max (int (length src)) n \<le> int (length dst) \<longleftrightarrow> \<not> int (length dst) < n"
      by linarith
    with False show ?thesis by (simp add: putInt_closed)
  qed
  have all: "(\<forall>k \<in> fst ` set (putInt_writes src n). k < length dst)
               \<longleftrightarrow> max (int (length src)) n \<le> int (length dst)"
  proof
    assume b: "\<forall>k \<in> fst ` set (putInt_writes src n). k < length dst"
    show "max (int (length src)) n \<le> int (length dst)"
    proof (rule ccontr)
      assume "\<not> max (int (length src)) n \<le> int (length dst)"
      then have "int (length dst) < max (int (length src)) n" by linarith
      then have "length dst \<in> {k. int k < max (int (length src)) n}" by simp
      with b show False unfolding putInt_writes_indices by blast
    qed
  next
    assume "max (int (length src)) n \<le> int (length dst)"
    then show "\<forall>k \<in> fst ` set (putInt_writes src n). k < length dst"
      unfolding putInt_writes_indices by auto
  qed
  show ?thesis
    using ok all by (simp add: putInt_as_writes [symmetric] putInt_writes_indices putInt_closed)
qed

theorem putInt_in_bounds_iff_witness:
  "max (int (length [1, 2 :: byte])) 4 \<le> int (length [9, 9, 9, 9, 7 :: byte])
   \<and> putInt [9, 9, 9, 9, 7] [1, 2] 4 = Inr [2, 1, 0, 0, 7]
   \<and> (2 \<le> int (length [9, 9 :: byte]) \<and> length [9, 9 :: byte] < length [1, 2, 3 :: byte])
   \<and> putInt [9, 9] [1, 2, 3] 2 = Inl (IndexOutOfRange 2 2)"
proof -
  have fits: "max (int (length [1, 2 :: byte])) 4 \<le> int (length [9, 9, 9, 9, 7 :: byte])"
    by simp
  have long: "2 \<le> int (length [9, 9 :: byte]) \<and> length [9, 9 :: byte] < length [1, 2, 3 :: byte]"
    by simp
  from putInt_in_bounds_iff [of "[9, 9, 9, 9, 7]" "[1, 2]" 4] fits
  have "putInt [9, 9, 9, 9, 7] [1, 2] 4 =
          Inr (rev [1, 2] @ replicate (nat 4 - length [1, 2 :: byte]) 0
               @ drop (max (length [1, 2 :: byte]) (nat 4)) [9, 9, 9, 9, 7])"
    by blast
  then have a: "putInt [9, 9, 9, 9, 7] [1, 2] 4 = Inr [2, 1, 0, 0, 7]"
    by (simp add: numeral_eq_Suc)
  from putInt_in_bounds_iff [of "[9, 9]" "[1, 2, 3]" 2] long
  have "putInt [9, 9] [1, 2, 3] 2 =
          Inl (IndexOutOfRange (length [1, 2, 3 :: byte] - 1) (length [9, 9 :: byte]))"
    by blast
  then have b: "putInt [9, 9] [1, 2, 3] 2 = Inl (IndexOutOfRange 2 2)"
    by (simp add: numeral_eq_Suc)
  from fits a long b show ?thesis by blast
qed

section \<open>Creating streams\<close>

lemma handles_Nil: "handles [] = {}"
  by (simp add: handles_def)

lemma handles_Cons: "handles (st # rest) = set_option (s st) \<union> handles rest"
  by (cases "s st") (auto simp: handles_def)

lemma handles_append: "handles (xs @ ys) = handles xs \<union> handles ys"
  by (induction xs) (auto simp: handles_Nil handles_Cons)

lemma streamsOf_Nil: "streamsOf cap [] = []"
  by (simp add: streamsOf_def)

lemma streamsOf_Cons:
  "streamsOf cap (r # rs) =
     (if result r \<noteq> None then [\<lparr>s = result r, memSize = cap\<rparr>] else []) @ streamsOf cap rs"
  by (simp add: streamsOf_def)

lemma handles_streamsOf_Cons:
  "handles (streamsOf cap (r # rs)) = set_option (result r) \<union> handles (streamsOf cap rs)"
  by (cases "result r") (simp_all add: streamsOf_Cons handles_append handles_Cons handles_Nil)

lemma destroyCreated_foldl:
  "destroyCreated C sts w = foldl (\<lambda>w' st. snd (destroyStream C (s st) w')) w sts"
  by (induction sts arbitrary: w) simp_all

lemma createCalls_length: "createCalls C info k w = (rs, w1) \<Longrightarrow> length rs = k"
  by (induction k arbitrary: w rs) (auto simp: Let_def split: prod.splits)

text \<open>The loop, when the call that fails first is the one after \<open>k\<close> more calls.\<close>

lemma createStreams_loop_failure:
  "createCalls C info (Suc k) w = (rs, w1) \<Longrightarrow>
   \<forall>r \<in> set (butlast rs). error r = None \<Longrightarrow>
   error (last rs) \<noteq> None \<Longrightarrow>
   int (i + k) < numStreams \<Longrightarrow>
   createStreams_loop C info cap numStreams i streams w =
     ((None, error (last rs)), destroyCreated C (streams @ streamsOf cap rs) w1)"
proof (induction k arbitrary: i streams w rs)
  case 0
  obtain r where cr: "createStream C info w = (r, w1)" and rs: "rs = [r]"
    using "0.prems"(1) by (auto simp: Let_def split: prod.splits)
  have failed: "error r \<noteq> None" using "0.prems"(3) rs by simp
  have lt: "int i < numStreams" using "0.prems"(4) by simp
  show ?case
    using lt failed cr
    by (subst createStreams_loop.simps)
      (auto simp: rs streamsOf_Cons streamsOf_Nil goError_def Let_def split: option.splits)
next
  case (Suc k)
  obtain r wa rs' where cr: "createStream C info w = (r, wa)"
    and rest: "createCalls C info (Suc k) wa = (rs', w1)" and rs: "rs = r # rs'"
    using Suc.prems(1) by (auto simp: Let_def split: prod.splits)
  have ne: "rs' \<noteq> []" using createCalls_length [OF rest] by auto
  have ok: "error r = None" using Suc.prems(2) rs ne by simp
  have early: "\<forall>r \<in> set (butlast rs'). error r = None" using Suc.prems(2) rs ne by simp
  have lst: "last rs = last rs'" using rs ne by simp
  have failed: "error (last rs') \<noteq> None" using Suc.prems(3) lst by simp
  have lt: "int i < numStreams" and lt': "int (Suc i + k) < numStreams"
    using Suc.prems(4) by simp_all
  let ?streams1 = "if result r \<noteq> None then streams @ [\<lparr>s = result r, memSize = cap\<rparr>] else streams"
  have step: "createStreams_loop C info cap numStreams i streams w =
                createStreams_loop C info cap numStreams (Suc i) ?streams1 wa"
    using lt ok cr by (subst createStreams_loop.simps) (simp add: Let_def)
  have app: "?streams1 @ streamsOf cap rs' = streams @ streamsOf cap rs"
    by (simp add: rs streamsOf_Cons)
  show ?case
    unfolding step lst
    using Suc.IH [OF rest early failed lt', of ?streams1] app by simp
qed

lemma createStreams_loop_success:
  "createCalls C info k w = (rs, w1) \<Longrightarrow>
   \<forall>r \<in> set rs. error r = None \<Longrightarrow>
   numStreams = int (i + k) \<Longrightarrow>
   createStreams_loop C info cap numStreams i streams w =
     ((Some (streams @ streamsOf cap rs), None), w1)"
proof (induction k arbitrary: i streams w rs)
  case 0
  then show ?case by (subst createStreams_loop.simps) (simp add: streamsOf_Nil)
next
  case (Suc k)
  obtain r wa rs' where cr: "createStream C info w = (r, wa)"
    and rest: "createCalls C info k wa = (rs', w1)" and rs: "rs = r # rs'"
    using Suc.prems(1) by (auto simp: Let_def split: prod.splits)
  have ok: "error r = None" and oks: "\<forall>r \<in> set rs'. error r = None"
    using Suc.prems(2) rs by simp_all
  have lt: "int i < numStreams" and n: "numStreams = int (Suc i + k)"
    using Suc.prems(3) by simp_all
  let ?streams1 = "if result r \<noteq> None then streams @ [\<lparr>s = result r, memSize = cap\<rparr>] else streams"
  have step: "createStreams_loop C info cap numStreams i streams w =
                createStreams_loop C info cap numStreams (Suc i) ?streams1 wa"
    using lt ok cr by (subst createStreams_loop.simps) (simp add: Let_def)
  have app: "?streams1 @ streamsOf cap rs' = streams @ streamsOf cap rs"
    by (simp add: rs streamsOf_Cons)
  show ?case
    unfolding step using Suc.IH [OF rest oks n, of ?streams1] app by simp
qed


lemma contract_create:
  assumes "native_contract allocated C" and "createStream C info w = (r, w1)"
  shows "allocated w1 = allocated w \<union> set_option (result r)"
proof -
  from assms(1) have "\<forall>info w. allocated (snd (createStream C info w)) =
      allocated w \<union> set_option (result (fst (createStream C info w)))"
    unfolding native_contract_def by (rule conjunct1)
  from this[rule_format, of info w] assms(2) show ?thesis by simp
qed

lemma contract_destroy_ok:
  assumes "native_contract allocated C" and "destroyStream C h w = (None, w1)"
  shows "allocated w1 = allocated w - set_option h"
proof -
  from assms(1) have "\<forall>h w. fst (destroyStream C h w) = None \<longrightarrow>
      allocated (snd (destroyStream C h w)) = allocated w - set_option h"
    unfolding native_contract_def by (rule conjunct2 [THEN conjunct1])
  from this[rule_format, of h w] assms(2) show ?thesis by simp
qed

lemma contract_destroy_failed:
  assumes "native_contract allocated C" and "destroyStream C h w = (e, w1)"
  shows "allocated w1 \<subseteq> allocated w"
proof -
  from assms(1) have "\<forall>h w. allocated (snd (destroyStream C h w)) \<subseteq> allocated w"
    unfolding native_contract_def by (rule conjunct2 [THEN conjunct2])
  from this[rule_format, of h w] assms(2) show ?thesis by simp
qed

lemma createCalls_allocated:
  assumes nc: "native_contract allocated C"
  shows "createCalls C info k w = (rs, w1) \<Longrightarrow>
         allocated w1 = allocated w \<union> handles (streamsOf cap rs)"
proof (induction k arbitrary: w rs)
  case 0
  then show ?case by (simp add: streamsOf_Nil handles_Nil)
next
  case (Suc k)
  obtain r wa rs' where cr: "createStream C info w = (r, wa)"
    and rest: "createCalls C info k wa = (rs', w1)" and rs: "rs = r # rs'"
    using Suc.prems by (auto simp: Let_def split: prod.splits)
  have "allocated w1 = allocated wa \<union> handles (streamsOf cap rs')" using Suc.IH [OF rest] .
  also have "allocated wa = allocated w \<union> set_option (result r)"
    using nc cr by (rule contract_create)
  finally show ?case unfolding rs handles_streamsOf_Cons by blast
qed

lemma destroyCreated_allocated:
  assumes nc: "native_contract allocated C"
  shows "allocated (destroyCreated C sts w)
           \<subseteq> (allocated w - handles sts) \<union> handles (undestroyed C sts w)"
proof (induction sts arbitrary: w)
  case Nil
  show ?case by (simp add: handles_Nil)
next
  case (Cons st rest)
  obtain e wa where d: "destroyStream C (s st) w = (e, wa)" by (cases "destroyStream C (s st) w")
  have IH: "allocated (destroyCreated C rest wa)
              \<subseteq> (allocated wa - handles rest) \<union> handles (undestroyed C rest wa)"
    by (rule Cons.IH)
  have run: "destroyCreated C (st # rest) w = destroyCreated C rest wa" by (simp add: d)
  show ?case
  proof (cases e)
    case None
    have a: "allocated wa = allocated w - set_option (s st)"
      using nc d unfolding None by (rule contract_destroy_ok)
    have u: "undestroyed C (st # rest) w = undestroyed C rest wa" by (simp add: d None)
    show ?thesis unfolding run u handles_Cons using IH a by blast
  next
    case (Some msg)
    have a: "allocated wa \<subseteq> allocated w" using nc d by (rule contract_destroy_failed)
    have u: "undestroyed C (st # rest) w = st # undestroyed C rest wa" by (simp add: d Some)
    show ?thesis unfolding run u handles_Cons using IH a by blast
  qed
qed

text \<open>
  C4, as stated, fails when a \<open>destroyStream\<close> of the cleanup itself fails: the error it
  returns is dropped. On a device with room for two contexts, where context 8 cannot be
  destroyed, a request for three streams creates contexts 8 and 9, fails on the third,
  and returns nil and the error with context 8 still allocated and named by nothing.
\<close>

theorem createStreams_leaks_when_destroy_fails:
  "createStreams (sim_native [8]) 1000 3 65536 \<lparr>next_handle = 8, live = [7], free_slots = 2\<rparr>
     = Inr ((None, Some ''out of memory''), \<lparr>next_handle = 10, live = [7, 8], free_slots = 1\<rparr>)
   \<and> 8 \<in> set (live \<lparr>next_handle = 10, live = [7, 8], free_slots = 1\<rparr>)
   \<and> 8 \<notin> set (live \<lparr>next_handle = 8, live = [7], free_slots = 2\<rparr>)"
  by (simp add: createStreams_def createStreams_loop.simps sim_native_def sim_createStream_def
      sim_destroyStream_def goError_def Let_def)

text \<open>
  C4, amended. Let the call of \<open>createStream\<close> for stream \<open>k\<close> be the first to return an
  error, \<open>k\<close> being below the requested count and the count one that \<open>make\<close> accepts. Then
  \<open>createStreams\<close> returns a nil slice together with that error, after calling
  \<open>destroyStream\<close> once, in the order of creation, on every stream created so far (the one
  returned along with the error included) and dropping what those calls return. For
  every native library that keeps the contract, the contexts that exist afterwards are
  among those that existed before the call and those whose \<open>destroyStream\<close> returned an
  error: no context created by the call stays allocated unless its destruction failed.
\<close>

theorem createStreams_failure:
  assumes calls: "createCalls C \<lparr>capacity = cap\<rparr> (Suc k) w = (rs, w1)"
    and earlier: "\<forall>r \<in> set (butlast rs). error r = None"
    and failed: "error (last rs) \<noteq> None"
    and count: "int k < numStreams" and limit: "numStreams \<le> capLimit"
  shows "createStreams C capLimit numStreams cap w =
           Inr ((None, error (last rs)),
                foldl (\<lambda>w' st. snd (destroyStream C (s st) w')) w1 (streamsOf cap rs))
       \<and> (native_contract allocated C \<longrightarrow>
            allocated (foldl (\<lambda>w' st. snd (destroyStream C (s st) w')) w1 (streamsOf cap rs))
              \<subseteq> allocated w \<union> handles (undestroyed C (streamsOf cap rs) w1))"
proof -
  have range: "\<not> (numStreams < 0 \<or> capLimit < numStreams)" using count limit by linarith
  have "int (0 + k) < numStreams" using count by simp
  from createStreams_loop_failure [OF calls earlier failed this, of cap "[]"]
  have loop: "createStreams_loop C \<lparr>capacity = cap\<rparr> cap numStreams 0 [] w =
                ((None, error (last rs)), destroyCreated C (streamsOf cap rs) w1)"
    by simp
  have ret: "createStreams C capLimit numStreams cap w =
           Inr ((None, error (last rs)),
                foldl (\<lambda>w' st. snd (destroyStream C (s st) w')) w1 (streamsOf cap rs))"
    using range loop by (simp add: createStreams_def Let_def destroyCreated_foldl)
  have leak: "native_contract allocated C \<longrightarrow>
            allocated (foldl (\<lambda>w' st. snd (destroyStream C (s st) w')) w1 (streamsOf cap rs))
              \<subseteq> allocated w \<union> handles (undestroyed C (streamsOf cap rs) w1)"
  proof
    assume nc: "native_contract allocated C"
    have a: "allocated w1 = allocated w \<union> handles (streamsOf cap rs)"
      using nc calls by (rule createCalls_allocated)
    have "allocated (destroyCreated C (streamsOf cap rs) w1)
            \<subseteq> (allocated w1 - handles (streamsOf cap rs))
               \<union> handles (undestroyed C (streamsOf cap rs) w1)"
      using nc by (rule destroyCreated_allocated)
    with a show "allocated (foldl (\<lambda>w' st. snd (destroyStream C (s st) w')) w1 (streamsOf cap rs))
              \<subseteq> allocated w \<union> handles (undestroyed C (streamsOf cap rs) w1)"
      unfolding destroyCreated_foldl by blast
  qed
  from ret leak show ?thesis by (rule conjI)
qed

lemma sim_contract: "native_contract (\<lambda>d. set (live d)) (sim_native stuck)"
  by (auto simp: native_contract_def sim_native_def sim_createStream_def sim_destroyStream_def
      split: option.splits if_splits)

theorem createStreams_failure_witness:
  "createCalls (sim_native [8]) \<lparr>capacity = 65536\<rparr> (Suc 2)
       \<lparr>next_handle = 8, live = [7], free_slots = 2\<rparr>
     = ([\<lparr>result = Some 8, error = None\<rparr>, \<lparr>result = Some 9, error = None\<rparr>,
         \<lparr>result = None, error = Some ''out of memory''\<rparr>],
        \<lparr>next_handle = 10, live = [7, 8, 9], free_slots = 0\<rparr>)
   \<and> createStreams (sim_native [8]) 1000 3 65536 \<lparr>next_handle = 8, live = [7], free_slots = 2\<rparr>
     = Inr ((None, Some ''out of memory''), \<lparr>next_handle = 10, live = [7, 8], free_slots = 1\<rparr>)
   \<and> native_contract (\<lambda>d. set (live d)) (sim_native [8])
   \<and> set (live \<lparr>next_handle = 10, live = [7, 8], free_slots = 1\<rparr>)
       \<subseteq> set (live \<lparr>next_handle = 8, live = [7], free_slots = 2\<rparr>)
         \<union> handles [\<lparr>s = Some 8, memSize = 65536\<rparr>]"
proof -
  let ?d0 = "\<lparr>next_handle = 8, live = [7], free_slots = 2\<rparr>"
  let ?d2 = "\<lparr>next_handle = 10, live = [7, 8, 9], free_slots = 0\<rparr>"
  let ?rs = "[\<lparr>result = Some 8, error = None\<rparr>, \<lparr>result = Some 9, error = None\<rparr>,
              \<lparr>result = None, error = Some ''out of memory''\<rparr>]"
  have calls: "createCalls (sim_native [8]) \<lparr>capacity = 65536\<rparr> (Suc 2) ?d0 = (?rs, ?d2)"
    by (simp add: numeral_2_eq_2 sim_native_def sim_createStream_def Let_def)
  have earlier: "\<forall>r \<in> set (butlast ?rs). error r = None" by simp
  have failed: "error (last ?rs) \<noteq> None" by simp
  have count: "int 2 < 3" and limit: "(3 :: int) \<le> 1000" by simp_all
  have final: "foldl (\<lambda>w' st. snd (destroyStream (sim_native [8]) (s st) w')) ?d2
                 (streamsOf 65536 ?rs)
               = \<lparr>next_handle = 10, live = [7, 8], free_slots = 1\<rparr>"
    by (simp add: streamsOf_def sim_native_def sim_destroyStream_def)
  have kept: "undestroyed (sim_native [8]) (streamsOf 65536 ?rs) ?d2
                = [\<lparr>s = Some 8, memSize = 65536\<rparr>]"
    by (simp add: streamsOf_def sim_native_def sim_destroyStream_def)
  note inst = createStreams_failure [OF calls earlier failed count limit,
      of "\<lambda>d. set (live d)"]
  from inst have ret: "createStreams (sim_native [8]) 1000 3 65536 ?d0
     = Inr ((None, Some ''out of memory''), \<lparr>next_handle = 10, live = [7, 8], free_slots = 1\<rparr>)"
    unfolding final by simp
  from inst sim_contract [of "[8]"]
  have sub: "set (live \<lparr>next_handle = 10, live = [7, 8], free_slots = 1\<rparr>)
       \<subseteq> set (live ?d0) \<union> handles [\<lparr>s = Some 8, memSize = 65536\<rparr>]"
    unfolding final kept by blast
  from calls ret sim_contract [of "[8]"] sub show ?thesis by blast
qed

section \<open>Destroying streams\<close>

lemma destroyStreams_first_failure:
  assumes "fst (destroyStream C (s st) w) \<noteq> None"
  shows "destroyStreams C (st # rest) w =
           (goError (fst (destroyStream C (s st) w)), snd (destroyStream C (s st) w))"
  using assms by (simp add: case_prod_unfold Let_def)

text \<open>
  C3. \<open>destroyStreams\<close> returns at the first stream whose destruction fails. With two live
  contexts 1 and 2, of which 1 cannot be destroyed, it reports the error and leaves both
  alive: \<open>destroyStream\<close> is never called on context 2, although that call would succeed.
\<close>

theorem destroyStreams_stops_at_first_failure:
  "destroyStreams (sim_native [1])
     [\<lparr>s = Some 1, memSize = 65536\<rparr>, \<lparr>s = Some 2, memSize = 65536\<rparr>]
     \<lparr>next_handle = 3, live = [1, 2], free_slots = 0\<rparr>
     = (Some ''destroy failed'', \<lparr>next_handle = 3, live = [1, 2], free_slots = 0\<rparr>)
   \<and> destroyStream (sim_native [1]) (Some 2) \<lparr>next_handle = 3, live = [1, 2], free_slots = 0\<rparr>
     = (None, \<lparr>next_handle = 3, live = [1], free_slots = 1\<rparr>)"
  by (simp add: sim_native_def sim_destroyStream_def goError_def)

section \<open>The stub build\<close>

text \<open>
  C7, as stated, fails: \<open>TakeStream\<close> of the stub build is a pool operation that hands its
  caller an empty \<open>Stream\<close> and no error.
\<close>

theorem stub_TakeStream_no_error:
  "TakeStream_stub (Some StreamPool_stub) = Stream_stub
   \<and> reported_error (CallTakeStream (Some StreamPool_stub)) = None
   \<and> reported_error (CallTakeStream (Some StreamPool_stub)) \<noteq> Some unsupported"
  by (simp add: TakeStream_stub_def)

text \<open>
  C7, amended. In the stub build the two operations that return an error, \<open>NewStreamPool\<close>
  and \<open>Destroy\<close>, return the message of the unsupported build for all inputs, and
  \<open>NewStreamPool\<close> returns no pool; \<open>TakeStream\<close> returns an empty \<open>Stream\<close> and
  \<open>ReturnStream\<close> does nothing, neither reporting an error; the four sizing queries return 0
  for all inputs.
\<close>

theorem stub_build_behaviour:
  "NewStreamPool_stub numStreams m = (None, Some unsupported)
   \<and> Destroy_stub sm = Some unsupported
   \<and> reported_error (CallNewStreamPool numStreams m) = Some unsupported
   \<and> reported_error (CallDestroy sm) = Some unsupported
   \<and> TakeStream_stub sm = Stream_stub
   \<and> reported_error (CallTakeStream sm) = None
   \<and> reported_error (CallReturnStream sm st) = None
   \<and> MaxSlots_stub m op = 0
   \<and> streamSizeContaining_stub numItems kern = 0
   \<and> GetMaxSlotsExp_stub str = 0
   \<and> GetMaxSlotsElGamal_stub str = 0
   \<and> unsupported = ''gpumaths stubbed build doesn'' @ [CHR 0x27] @ ''t support CUDA stream pool''"
  by (simp add: NewStreamPool_stub_def Destroy_stub_def TakeStream_stub_def
      ReturnStream_stub_def MaxSlots_stub_def streamSizeContaining_stub_def
      GetMaxSlotsExp_stub_def GetMaxSlotsElGamal_stub_def unsupported_def split: unit.split)

section \<open>Checkouts of the pool\<close>






end
